theory Spec2Isabelle
  imports Main
begin

section \<open>Team generator: the data model of \<open>main.js\<close>\<close>

text \<open>
  The program schedules 8 players into rounds of four pairings. Player identifiers are
  JavaScript strings; only their equality and their truthiness (a string is falsy exactly
  when it is empty) are ever observed.
\<close>

type_synonym player = string

text \<open>
  Every \<open>throw\<close> of the program, and the \<open>TypeError\<close> the runtime raises when a property
  of \<open>undefined\<close> is read or written.
\<close>

datatype error =
    InvalidPairing      \<comment> \<open>\<open>'A pairing must include two unique players.'\<close>\<close>
  | PlayersNotUnique    \<comment> \<open>\<open>'Player identifiers must be unique'\<close>\<close>
  | WrongPlayerCount nat  \<comment> \<open>\<open>'8 players needed. You provided n.'\<close>\<close>
  | TypeError

text \<open>A \<open>Pairing\<close> object holds the two-element array \<open>value = [p1, p2]\<close>.\<close>

type_synonym pairing = "player \<times> player"

record PossibleTeam =
  possible :: bool
  configuration :: "pairing list"

record TeamConfigurations =
  teams :: "pairing list list"
  players :: "player list"
  memo :: "nat list list"

subsection \<open>The library functions the program calls\<close>

text \<open>
  \<open>_.unique\<close>, \<open>_.without\<close> and \<open>_.last\<close> come from the utility library bound to \<open>_\<close>,
  and \<open>indexOf\<close> from the language. They are written out here after their documentation:
  \<open>_.unique\<close> keeps the first occurrence of every value, \<open>_.without\<close> drops every
  occurrence of the given values, \<open>_.last\<close> is \<open>undefined\<close> on the empty array, and
  \<open>indexOf\<close> is the first position of a value or \<open>-1\<close>.
\<close>

fun unique_acc :: "player list \<Rightarrow> player list \<Rightarrow> player list" where
  "unique_acc seen [] = seen"
| "unique_acc seen (x # xs) =
     (if x \<in> set seen then unique_acc seen xs else unique_acc (seen @ [x]) xs)"

definition unique :: "player list \<Rightarrow> player list" where
  "unique xs = unique_acc [] xs"

definition without :: "player list \<Rightarrow> player \<Rightarrow> player \<Rightarrow> player list" where
  "without xs a b = filter (\<lambda>x. x \<noteq> a \<and> x \<noteq> b) xs"

definition last_opt :: "'a list \<Rightarrow> 'a option" where
  "last_opt xs = (if xs = [] then None else Some (last xs))"

fun indexOf :: "player list \<Rightarrow> player \<Rightarrow> int" where
  "indexOf [] x = - 1"
| "indexOf (y # ys) x =
     (if y = x then 0 else (let r = indexOf ys x in if r < 0 then - 1 else r + 1))"

subsection \<open>Reading and writing the memo\<close>

text \<open>
  \<open>this.memo[i]\<close> is \<open>undefined\<close> when \<open>i\<close> is no index of the array (in particular for the
  \<open>-1\<close> of a failed \<open>indexOf\<close>), and indexing \<open>undefined\<close> raises a \<open>TypeError\<close>. Inside a
  row, a missing element reads as \<open>undefined\<close>, which is falsy like \<open>0\<close>.
\<close>

definition memo_row :: "nat list list \<Rightarrow> int \<Rightarrow> nat list option" where
  "memo_row m i = (if 0 \<le> i \<and> nat i < length m then Some (m ! nat i) else None)"

definition row_cell :: "nat list \<Rightarrow> int \<Rightarrow> nat" where
  "row_cell r j = (if 0 \<le> j \<and> nat j < length r then r ! nat j else 0)"

text \<open>
  \<open>row[j] = 1\<close>: an index past the end extends the array with holes, which the later reads
  and \<open>reduce\<close> treat like \<open>0\<close>. A negative \<open>j\<close> never reaches this function: see
  \<open>updateMemo_pair\<close>.
\<close>

definition row_set :: "nat list \<Rightarrow> nat \<Rightarrow> nat list" where
  "row_set r j =
     (if j < length r then r[j := 1] else r @ replicate (j - length r) 0 @ [1])"

subsection \<open>\<open>Pairing\<close>\<close>

text \<open>
  The constructor of \<open>Pairing\<close>: \<open>if (!p1 || !p2 || p1 === p2) throw\<close>. For a string,
  \<open>!p\<close> holds exactly when \<open>p\<close> is empty.
\<close>

definition Pairing :: "player \<Rightarrow> player \<Rightarrow> error + pairing" where
  "Pairing p1 p2 =
     (if p1 = [] \<or> p2 = [] \<or> p1 = p2 then Inl InvalidPairing else Inr (p1, p2))"

subsection \<open>\<open>TeamConfigurations\<close>\<close>

text \<open>The constructor: the two roster checks in the source's order, then the zeroed memo.\<close>

definition TeamConfigurations_new :: "player list \<Rightarrow> error + TeamConfigurations" where
  "TeamConfigurations_new ps =
     (if length (unique ps) \<noteq> length ps then Inl PlayersNotUnique
      else if length ps \<noteq> 8 then Inl (WrongPlayerCount (length ps))
      else Inr \<lparr> teams = [], players = ps,
                 memo = replicate (length ps) (replicate (length ps) 0) \<rparr>)"

text \<open>
  One pass of the loop of \<open>_updateMemo\<close>. With \<open>p1Idx = -1\<close> the first assignment raises;
  with \<open>p2Idx = -1\<close> the first assignment only sets a property named \<open>-1\<close> and the second
  one raises. Otherwise both cells are set.
\<close>

definition updateMemo_pair :: "player list \<Rightarrow> nat list list \<Rightarrow> pairing \<Rightarrow> error + nat list list" where
  "updateMemo_pair ps m p =
     (let p1Idx = indexOf ps (fst p); p2Idx = indexOf ps (snd p) in
      if p1Idx < 0 \<or> p2Idx < 0 then Inl TypeError
      else case memo_row m p1Idx of
        None \<Rightarrow> Inl TypeError
      | Some r1 \<Rightarrow>
          (let m1 = m[nat p1Idx := row_set r1 (nat p2Idx)] in
           case memo_row m1 p2Idx of
             None \<Rightarrow> Inl TypeError
           | Some r2 \<Rightarrow> Inr (m1[nat p2Idx := row_set r2 (nat p1Idx)])))"

fun updateMemo :: "player list \<Rightarrow> nat list list \<Rightarrow> pairing list \<Rightarrow> error + nat list list" where
  "updateMemo ps m [] = Inr m"
| "updateMemo ps m (p # validTeam) =
     (case updateMemo_pair ps m p of
        Inl e \<Rightarrow> Inl e
      | Inr m' \<Rightarrow> updateMemo ps m' validTeam)"

text \<open>\<open>_allTeamsGenerated\<close>: every row of the memo sums to \<open>players.length - 1\<close>.\<close>

definition allTeamsGenerated :: "TeamConfigurations \<Rightarrow> bool" where
  "allTeamsGenerated s =
     list_all (\<lambda>row. int (sum_list row) = int (length (players s)) - 1) (memo s)"

text \<open>
  The test at the head of \<open>_createTeam\<close>: \<open>lastPairing && this.memo[memoIdx1][memoIdx2]\<close>.
  \<open>Inr True\<close> means that the last pairing is a repeat.
\<close>

definition lastPairing_repeat :: "player list \<Rightarrow> nat list list \<Rightarrow> pairing list \<Rightarrow> error + bool" where
  "lastPairing_repeat ps m team =
     (case last_opt team of
        None \<Rightarrow> Inr False
      | Some lastPairing \<Rightarrow>
          (let memoIdx1 = indexOf ps (fst lastPairing);
               memoIdx2 = indexOf ps (snd lastPairing) in
           case memo_row m memoIdx1 of
             None \<Rightarrow> Inl TypeError
           | Some r \<Rightarrow> Inr (row_cell r memoIdx2 \<noteq> 0)))"

text \<open>
  \<open>_createTeam\<close> with its two nested \<open>for\<close> loops. \<open>createTeam_inner\<close> is the body of the
  inner loop from \<open>player2Idx = j\<close> on, \<open>createTeam_outer\<close> the outer loop from
  \<open>player1Idx = i\<close> on. An exception of \<open>new Pairing\<close> or of the recursive call leaves
  both loops.
\<close>

function createTeam :: "player list \<Rightarrow> nat list list \<Rightarrow> pairing list \<Rightarrow> player list \<Rightarrow> error + PossibleTeam"
  and createTeam_outer :: "player list \<Rightarrow> nat list list \<Rightarrow> pairing list \<Rightarrow> player list \<Rightarrow> nat \<Rightarrow> error + PossibleTeam"
  and createTeam_inner :: "player list \<Rightarrow> nat list list \<Rightarrow> pairing list \<Rightarrow> player list \<Rightarrow> nat \<Rightarrow> nat \<Rightarrow> error + PossibleTeam"
where
  "createTeam ps m team choices =
     (case lastPairing_repeat ps m team of
        Inl e \<Rightarrow> Inl e
      | Inr rep \<Rightarrow>
          if rep then Inr \<lparr> possible = False, configuration = [] \<rparr>
          else if length choices = 0 then Inr \<lparr> possible = True, configuration = team \<rparr>
          else createTeam_outer ps m team choices 0)"
| "createTeam_outer ps m team choices i =
     (if int i < int (length choices) - 1
      then createTeam_inner ps m team choices i (i + 1)
      else Inr \<lparr> possible = False, configuration = [] \<rparr>)"
| "createTeam_inner ps m team choices i j =
     (if j < length choices
      then (case Pairing (choices ! i) (choices ! j) of
              Inl e \<Rightarrow> Inl e
            | Inr p \<Rightarrow>
                (case createTeam ps m (team @ [p])
                        (without choices (choices ! i) (choices ! j)) of
                   Inl e \<Rightarrow> Inl e
                 | Inr possibleTeam \<Rightarrow>
                     if possible possibleTeam then Inr possibleTeam
                     else createTeam_inner ps m team choices i (j + 1)))
      else createTeam_outer ps m team choices (i + 1))"
  by pat_completeness auto

termination
proof (relation "measures
    [case_sum (\<lambda>(ps, m, team, choices). length choices)
       (case_sum (\<lambda>(ps, m, team, choices, i). length choices)
                 (\<lambda>(ps, m, team, choices, i, j). length choices)),
     case_sum (\<lambda>(ps, m, team, choices). 2 * length choices + 5)
       (case_sum (\<lambda>(ps, m, team, choices, i).
                    if int i < int (length choices) - 1
                    then 2 * (length choices + 1 - i) + 2 else 0)
                 (\<lambda>(ps, m, team, choices, i, j). 2 * (length choices + 1 - i) + 1)),
     case_sum (\<lambda>(ps, m, team, choices). 0)
       (case_sum (\<lambda>(ps, m, team, choices, i). 0)
                 (\<lambda>(ps, m, team, choices, i, j). length choices - j))]",
    goal_cases)
  case 1
  show ?case by simp
next
  case (2 ps m team choices x2)
  then show ?case by simp
next
  case (3 ps m team choices i)
  then show ?case by simp
next
  case (4 ps m team choices i j x2)
  then have "length (filter (\<lambda>x. x \<noteq> choices ! i \<and> x \<noteq> choices ! j) choices) < length choices"
    by (intro length_filter_less [of "choices ! j"]) simp_all
  then show ?case by (simp add: without_def)
next
  case (5 ps m team choices i j x2 x2a)
  then show ?case by simp
next
  case (6 ps m team choices i j)
  then show ?case by (auto simp: Suc_diff_le)
qed

text \<open>
  One pass of the body of the \<open>while\<close> loop of \<open>createTeams\<close>: search a round; when one
  is found, push it and update the memo; when none is found, change nothing.
\<close>

definition createTeams_body :: "TeamConfigurations \<Rightarrow> error + TeamConfigurations" where
  "createTeams_body s =
     (case createTeam (players s) (memo s) [] (players s) of
        Inl e \<Rightarrow> Inl e
      | Inr possibleTeam \<Rightarrow>
          if possible possibleTeam
          then (case updateMemo (players s) (memo s) (configuration possibleTeam) of
                  Inl e \<Rightarrow> Inl e
                | Inr m' \<Rightarrow>
                    Inr (s\<lparr> teams := teams s @ [configuration possibleTeam], memo := m' \<rparr>))
          else Inr s)"

text \<open>
  \<open>createTeams\<close>. The loop has no bound, so the function is partial: \<open>None\<close> is a run that
  never returns, \<open>Some (Inl e)\<close> a run that throws \<open>e\<close>, and \<open>Some (Inr s)\<close> a run that
  returns, \<open>s\<close> being the object on return and \<open>teams s\<close> the array returned.
\<close>

partial_function (option) createTeams :: "TeamConfigurations \<Rightarrow> (error + TeamConfigurations) option" where
  "createTeams s =
     (if allTeamsGenerated s then Some (Inr s)
      else case createTeams_body s of
             Inl e \<Rightarrow> Some (Inl e)
           | Inr s' \<Rightarrow> createTeams s')"

declare createTeams.simps [code]

text \<open>
  The loop of \<open>createTeams\<close> cut after \<open>n\<close> passes: \<open>loop_completes_in n s\<close> holds when,
  started in \<open>s\<close>, the loop makes exactly \<open>n\<close> passes, the completion test is false before
  each of them, every one of them finds a round (no exception, \<open>possible = true\<close>), and the
  completion test holds after the last.
\<close>

definition round_found :: "TeamConfigurations \<Rightarrow> bool" where
  "round_found s =
     (case createTeam (players s) (memo s) [] (players s) of
        Inl e \<Rightarrow> False
      | Inr possibleTeam \<Rightarrow> possible possibleTeam)"

fun loop_completes_in :: "nat \<Rightarrow> TeamConfigurations \<Rightarrow> bool" where
  "loop_completes_in 0 s = allTeamsGenerated s"
| "loop_completes_in (Suc n) s =
     (\<not> allTeamsGenerated s \<and> round_found s \<and>
      (case createTeams_body s of Inl e \<Rightarrow> False | Inr s' \<Rightarrow> loop_completes_in n s'))"

section \<open>Notions used to state the properties\<close>

subsection \<open>Rounds and schedules\<close>

text \<open>
  A round contains the unordered pair of \<open>x\<close> and \<open>y\<close> when one of its pairings holds the two
  in either order. \<open>round_players\<close> lists the members of a round, pairing after pairing.
\<close>

definition round_has_pair :: "player \<Rightarrow> player \<Rightarrow> pairing list \<Rightarrow> bool" where
  "round_has_pair x y round = list_ex (\<lambda>p. p = (x, y) \<or> p = (y, x)) round"

definition round_players :: "pairing list \<Rightarrow> player list" where
  "round_players round = concat (map (\<lambda>p. [fst p, snd p]) round)"

definition members :: "pairing \<Rightarrow> player set" where
  "members p = {fst p, snd p}"

text \<open>The number of used (non-zero) entries of a row of the memo.\<close>

definition used_entries :: "nat list \<Rightarrow> nat" where
  "used_entries row = length (filter (\<lambda>v. v \<noteq> 0) row)"

text \<open>
  The schedule that the search produces for a roster \<open>[a, b, c, d, e, f, g, h]\<close>, as a
  function of the roster's positions, and the memo after each of its rounds. A row of the
  memo is given by the positions that it marks: \<open>marked js\<close> is the row of eight entries
  with \<open>1\<close> at the positions \<open>js\<close> and \<open>0\<close> elsewhere.
\<close>

definition marked :: "nat list \<Rightarrow> nat list" where
  "marked js = map (\<lambda>j. if j \<in> set js then 1 else 0) [0 ..< 8]"

definition schedule8 :: "player list \<Rightarrow> pairing list list" where
  "schedule8 ps =
     (case ps of
        [a, b, c, d, e, f, g, h] \<Rightarrow>
          [[(a, b), (c, d), (e, f), (g, h)],
           [(a, c), (b, d), (e, g), (f, h)],
           [(a, d), (b, c), (e, h), (f, g)],
           [(a, e), (b, f), (c, g), (d, h)],
           [(a, f), (b, e), (c, h), (d, g)],
           [(a, g), (b, h), (c, e), (d, f)],
           [(a, h), (b, g), (c, f), (d, e)]]
      | _ \<Rightarrow> [])"

definition memo_after1 :: "nat list list" where
  "memo_after1 = map marked [[1], [0], [3], [2], [5], [4], [7], [6]]"

definition memo_after2 :: "nat list list" where
  "memo_after2 = map marked [[1, 2], [0, 3], [0, 3], [1, 2], [5, 6], [4, 7], [4, 7], [5, 6]]"

definition memo_after3 :: "nat list list" where
  "memo_after3 =
     map marked
       [[1, 2, 3], [0, 2, 3], [0, 1, 3], [0, 1, 2],
        [5, 6, 7], [4, 6, 7], [4, 5, 7], [4, 5, 6]]"

definition memo_after4 :: "nat list list" where
  "memo_after4 =
     map marked
       [[1, 2, 3, 4], [0, 2, 3, 5], [0, 1, 3, 6], [0, 1, 2, 7],
        [0, 5, 6, 7], [1, 4, 6, 7], [2, 4, 5, 7], [3, 4, 5, 6]]"

definition memo_after5 :: "nat list list" where
  "memo_after5 =
     map marked
       [[1, 2, 3, 4, 5], [0, 2, 3, 4, 5], [0, 1, 3, 6, 7], [0, 1, 2, 6, 7],
        [0, 1, 5, 6, 7], [0, 1, 4, 6, 7], [2, 3, 4, 5, 7], [2, 3, 4, 5, 6]]"

definition memo_after6 :: "nat list list" where
  "memo_after6 =
     map marked
       [[1, 2, 3, 4, 5, 6], [0, 2, 3, 4, 5, 7], [0, 1, 3, 4, 6, 7], [0, 1, 2, 5, 6, 7],
        [0, 1, 2, 5, 6, 7], [0, 1, 3, 4, 6, 7], [0, 2, 3, 4, 5, 7], [1, 2, 3, 4, 5, 6]]"

definition memo_after7 :: "nat list list" where
  "memo_after7 =
     map marked
       [[1, 2, 3, 4, 5, 6, 7], [0, 2, 3, 4, 5, 6, 7], [0, 1, 3, 4, 5, 6, 7], [0, 1, 2, 4, 5, 6, 7],
        [0, 1, 2, 3, 5, 6, 7], [0, 1, 2, 3, 4, 6, 7], [0, 1, 2, 3, 4, 5, 7], [0, 1, 2, 3, 4, 5, 6]]"

subsection \<open>The order of the search\<close>

text \<open>
  The candidate pairs over \<open>n\<close> remaining choices in the order of the two loops: all
  positions \<open>(i, j)\<close> with \<open>i < j < n\<close>, by \<open>i\<close> and then by \<open>j\<close>. \<open>first_success\<close> tries
  candidates from left to right and stops at the first one whose search succeeds (or
  throws); \<open>try_candidate\<close> is what the body of the inner loop does with one candidate.
\<close>

definition candidate_pairs :: "nat \<Rightarrow> (nat \<times> nat) list" where
  "candidate_pairs n = concat (map (\<lambda>i. map (\<lambda>j. (i, j)) [i + 1 ..< n]) [0 ..< n - 1])"

fun first_success :: "('a \<Rightarrow> error + PossibleTeam) \<Rightarrow> 'a list \<Rightarrow> error + PossibleTeam" where
  "first_success try [] = Inr \<lparr> possible = False, configuration = [] \<rparr>"
| "first_success try (c # cs) =
     (case try c of
        Inl e \<Rightarrow> Inl e
      | Inr r \<Rightarrow> if possible r then Inr r else first_success try cs)"

definition try_candidate ::
  "player list \<Rightarrow> nat list list \<Rightarrow> pairing list \<Rightarrow> player list \<Rightarrow> nat \<times> nat \<Rightarrow> error + PossibleTeam" where
  "try_candidate ps m team choices c =
     (case Pairing (choices ! fst c) (choices ! snd c) of
        Inl e \<Rightarrow> Inl e
      | Inr p \<Rightarrow>
          createTeam ps m (team @ [p]) (without choices (choices ! fst c) (choices ! snd c)))"

text \<open>
  The round search as the specification words it: reject a repeated last pairing, accept
  when no player remains, otherwise return the first success among the candidate pairs in
  their fixed order.
\<close>

definition round_search_spec ::
  "player list \<Rightarrow> nat list list \<Rightarrow> pairing list \<Rightarrow> player list \<Rightarrow> error + PossibleTeam" where
  "round_search_spec ps m team choices =
     (case lastPairing_repeat ps m team of
        Inl e \<Rightarrow> Inl e
      | Inr rep \<Rightarrow>
          if rep then Inr \<lparr> possible = False, configuration = [] \<rparr>
          else if choices = [] then Inr \<lparr> possible = True, configuration = team \<rparr>
          else first_success (try_candidate ps m team choices)
                 (candidate_pairs (length choices)))"

subsection \<open>Used pairs, and the search with its checks recorded\<close>

text \<open>
  The constraint state on its own terms, without the code that reads it: \<open>position ps a\<close>
  is the first position of \<open>a\<close> in the roster (the length of the roster when \<open>a\<close> is not
  in it), and the cell of two positions is used when it exists in the memo and is not
  \<open>0\<close>. A pairing is unused when both members are roster players and the cell of their
  positions is not used.
\<close>

definition position :: "player list \<Rightarrow> player \<Rightarrow> nat" where
  "position ps a = length (takeWhile (\<lambda>x. x \<noteq> a) ps)"

definition used_cell :: "nat list list \<Rightarrow> nat \<Rightarrow> nat \<Rightarrow> bool" where
  "used_cell m i j = (i < length m \<and> j < length (m ! i) \<and> m ! i ! j \<noteq> 0)"

definition pair_unused :: "player list \<Rightarrow> nat list list \<Rightarrow> pairing \<Rightarrow> bool" where
  "pair_unused ps m p =
     (fst p \<in> set ps \<and> snd p \<in> set ps
      \<and> \<not> used_cell m (position ps (fst p)) (position ps (snd p)))"

text \<open>
  \<open>_createTeam\<close> once more, with a record of the checks made so far on the way to an
  invocation and an assertion at the head of every invocation. \<open>checked\<close> lists, in order,
  the pairings that the head test has been applied to in the enclosing invocations;
  \<open>now_checked\<close> adds the last pairing of \<open>team\<close> when the head test of this invocation
  has run. The assertion says that the pairings checked so far are exactly those of the
  partial round but the last, each once and in the order of the round, and that each of
  them is unused in the memo. A violated assertion ends the search with \<open>None\<close>.
  Without \<open>checked\<close> and the assertion the three equations are those of \<open>createTeam\<close>.
\<close>

definition now_checked :: "pairing list \<Rightarrow> pairing list \<Rightarrow> pairing list" where
  "now_checked checked team = (if team = [] then checked else checked @ [last team])"

function createTeam_chk ::
    "player list \<Rightarrow> nat list list \<Rightarrow> pairing list \<Rightarrow> pairing list \<Rightarrow> player list
      \<Rightarrow> (error + PossibleTeam) option"
  and createTeam_chk_outer ::
    "player list \<Rightarrow> nat list list \<Rightarrow> pairing list \<Rightarrow> pairing list \<Rightarrow> player list \<Rightarrow> nat
      \<Rightarrow> (error + PossibleTeam) option"
  and createTeam_chk_inner ::
    "player list \<Rightarrow> nat list list \<Rightarrow> pairing list \<Rightarrow> pairing list \<Rightarrow> player list \<Rightarrow> nat \<Rightarrow> nat
      \<Rightarrow> (error + PossibleTeam) option"
where
  "createTeam_chk ps m checked team choices =
     (if checked = butlast team \<and> list_all (pair_unused ps m) checked
      then (case lastPairing_repeat ps m team of
              Inl e \<Rightarrow> Some (Inl e)
            | Inr rep \<Rightarrow>
                if rep then Some (Inr \<lparr> possible = False, configuration = [] \<rparr>)
                else if length choices = 0
                then Some (Inr \<lparr> possible = True, configuration = team \<rparr>)
                else createTeam_chk_outer ps m (now_checked checked team) team choices 0)
      else None)"
| "createTeam_chk_outer ps m checked team choices i =
     (if int i < int (length choices) - 1
      then createTeam_chk_inner ps m checked team choices i (i + 1)
      else Some (Inr \<lparr> possible = False, configuration = [] \<rparr>))"
| "createTeam_chk_inner ps m checked team choices i j =
     (if j < length choices
      then (case Pairing (choices ! i) (choices ! j) of
              Inl e \<Rightarrow> Some (Inl e)
            | Inr p \<Rightarrow>
                (case createTeam_chk ps m checked (team @ [p])
                        (without choices (choices ! i) (choices ! j)) of
                   None \<Rightarrow> None
                 | Some (Inl e) \<Rightarrow> Some (Inl e)
                 | Some (Inr possibleTeam) \<Rightarrow>
                     if possible possibleTeam then Some (Inr possibleTeam)
                     else createTeam_chk_inner ps m checked team choices i (j + 1)))
      else createTeam_chk_outer ps m checked team choices (i + 1))"
  by pat_completeness auto

termination
proof (relation "measures
    [case_sum (\<lambda>(ps, m, checked, team, choices). length choices)
       (case_sum (\<lambda>(ps, m, checked, team, choices, i). length choices)
                 (\<lambda>(ps, m, checked, team, choices, i, j). length choices)),
     case_sum (\<lambda>(ps, m, checked, team, choices). 2 * length choices + 5)
       (case_sum (\<lambda>(ps, m, checked, team, choices, i).
                    if int i < int (length choices) - 1
                    then 2 * (length choices + 1 - i) + 2 else 0)
                 (\<lambda>(ps, m, checked, team, choices, i, j). 2 * (length choices + 1 - i) + 1)),
     case_sum (\<lambda>(ps, m, checked, team, choices). 0)
       (case_sum (\<lambda>(ps, m, checked, team, choices, i). 0)
                 (\<lambda>(ps, m, checked, team, choices, i, j). length choices - j))]",
    goal_cases)
  case 1
  show ?case by simp
next
  case (2 ps m checked team choices x2)
  then show ?case by simp
next
  case (3 ps m checked team choices i)
  then show ?case by simp
next
  case (4 ps m checked team choices i j x2)
  then have "length (filter (\<lambda>x. x \<noteq> choices ! i \<and> x \<noteq> choices ! j) choices) < length choices"
    by (intro length_filter_less [of "choices ! j"]) simp_all
  then show ?case by (simp add: without_def)
next
  case (5 ps m checked team choices i j x2 x2a x2b)
  then show ?case by simp
next
  case (6 ps m checked team choices i j)
  then show ?case by (auto simp: Suc_diff_le)
qed

subsection \<open>Roster errors and concrete inputs\<close>

text \<open>The two errors of the constructor of \<open>TeamConfigurations\<close>.\<close>

definition invalid_roster_error :: "player list \<Rightarrow> error \<Rightarrow> bool" where
  "invalid_roster_error ps e = (e = PlayersNotUnique \<or> e = WrongPlayerCount (length ps))"

text \<open>
  The roster of \<open>tc1\<close> at the end of the program: the eight one-character names
  \<open>'1'\<close> to \<open>'8'\<close>.
\<close>

definition tc1_players :: "player list" where
  "tc1_players = map (\<lambda>c. [c]) ''12345678''"

text \<open>
  Two rosters of eight distinct strings, one of them the empty string (the other names
  are those of \<open>tc2\<close>).
\<close>

definition empty_first_players :: "player list" where
  "empty_first_players =
     ['''', ''Bob'', ''Charlie'', ''Daniel'', ''Ellie'', ''Frank'', ''George'', ''Helga'']"

definition empty_last_players :: "player list" where
  "empty_last_players =
     [''Alice'', ''Bob'', ''Charlie'', ''Daniel'', ''Ellie'', ''Frank'', ''George'', '''']"


text \<open>
  The object \<open>tc1\<close> as the constructor leaves it and as \<open>createTeams\<close> leaves it.
\<close>

definition tc1_start :: TeamConfigurations where
  "tc1_start = \<lparr> teams = [], players = tc1_players, memo = replicate 8 (replicate 8 0) \<rparr>"

definition tc1_end :: TeamConfigurations where
  "tc1_end = \<lparr> teams = schedule8 tc1_players, players = tc1_players, memo = memo_after7 \<rparr>"




text \<open>
  The objects that a run of \<open>createTeams\<close> passes through: \<open>reached s0 s\<close> holds when the
  loop, started on \<open>s0\<close>, stands in \<open>s\<close> at the head of one of its passes.
\<close>

inductive reached :: "TeamConfigurations \<Rightarrow> TeamConfigurations \<Rightarrow> bool"
  for s0 :: TeamConfigurations where
  start: "reached s0 s0"
| pass: "reached s0 s \<Longrightarrow> \<not> allTeamsGenerated s \<Longrightarrow> createTeams_body s = Inr s' \<Longrightarrow>
         reached s0 s'"

definition empty_first_start :: TeamConfigurations where
  "empty_first_start =
     \<lparr> teams = [], players = empty_first_players, memo = replicate 8 (replicate 8 0) \<rparr>"

definition empty_last_start :: TeamConfigurations where
  "empty_last_start =
     \<lparr> teams = [], players = empty_last_players, memo = replicate 8 (replicate 8 0) \<rparr>"

text \<open>Rosters of seven and of nine players, and a roster of eight with a repeated name.\<close>

definition seven_players :: "player list" where
  "seven_players =
     [''Alice'', ''Bob'', ''Charlie'', ''Daniel'', ''Ellie'', ''Frank'', ''George'']"

definition nine_players :: "player list" where
  "nine_players =
     [''Alice'', ''Bob'', ''Charlie'', ''Daniel'', ''Ellie'', ''Frank'', ''George'', ''Helga'',
      ''Ida'']"

definition duplicate_players :: "player list" where
  "duplicate_players =
     [''Alice'', ''Bob'', ''Charlie'', ''Daniel'', ''Ellie'', ''Frank'', ''George'', ''Alice'']"

text \<open>All two-element combinations of a list, each once, in the order of the list.\<close>

fun combinations2 :: "'a list \<Rightarrow> ('a \<times> 'a) list" where
  "combinations2 [] = []"
| "combinations2 (x # xs) = map (Pair x) xs @ combinations2 xs"

text \<open>How often the unordered pair \<open>c\<close> occurs among the pairings \<open>qs\<close>.\<close>

definition occurrences :: "pairing \<Rightarrow> pairing list \<Rightarrow> nat" where
  "occurrences c qs = length (filter (\<lambda>p. p = c \<or> p = (snd c, fst c)) qs)"

section \<open>Evaluating the search on a roster of eight distinct players\<close>

text \<open>
  The equations of \<open>createTeam\<close> and its loops are unfolded on demand only: together with
  the library functions they evaluate a search on an explicit roster.
\<close>

declare createTeam.simps [simp del] createTeam_outer.simps [simp del]
  createTeam_inner.simps [simp del]

lemma upt8: "[0 ..< 8] = [0, 1, 2, 3, 4, 5, 6, 7]"
  by code_simp

lemmas round_eval = upt8 createTeam.simps createTeam_outer.simps createTeam_inner.simps
  Pairing_def without_def lastPairing_repeat_def last_opt_def memo_row_def
  row_cell_def Let_def updateMemo_pair_def row_set_def marked_def

lemma distinct8_neq:
  assumes "distinct [a, b, c, d, e, f, g, h]"
  shows "a \<noteq> b" "a \<noteq> c" "a \<noteq> d" "a \<noteq> e" "a \<noteq> f" "a \<noteq> g" "a \<noteq> h"
    "b \<noteq> c" "b \<noteq> d" "b \<noteq> e" "b \<noteq> f" "b \<noteq> g" "b \<noteq> h"
    "c \<noteq> d" "c \<noteq> e" "c \<noteq> f" "c \<noteq> g" "c \<noteq> h"
    "d \<noteq> e" "d \<noteq> f" "d \<noteq> g" "d \<noteq> h"
    "e \<noteq> f" "e \<noteq> g" "e \<noteq> h"
    "f \<noteq> g" "f \<noteq> h" "g \<noteq> h"
  using assms by auto

lemma nonempty8:
  assumes "[] \<notin> set [a, b, c, d, e, f, g, h]"
  shows "a \<noteq> [] \<and> b \<noteq> [] \<and> c \<noteq> [] \<and> d \<noteq> [] \<and> e \<noteq> [] \<and> f \<noteq> [] \<and> g \<noteq> [] \<and> h \<noteq> []"
  using assms by auto

lemma replicate8: "replicate 8 x = [x, x, x, x, x, x, x, x]"
  by (simp add: eval_nat_numeral)

lemma roster8:
  assumes "length ps = 8"
  obtains a b c d e f g h where "ps = [a, b, c, d, e, f, g, h]"
proof -
  from assms have "length ps = Suc (Suc (Suc (Suc (Suc (Suc (Suc (Suc 0)))))))"
    by simp
  then show ?thesis
    by (auto simp: length_Suc_conv intro: that)
qed

lemma round1:
  assumes "distinct [a, b, c, d, e, f, g, h]" and "[] \<notin> set [a, b, c, d, e, f, g, h]"
  shows "createTeam [a, b, c, d, e, f, g, h] (replicate 8 (replicate 8 0)) [] [a, b, c, d, e, f, g, h]
           = Inr \<lparr> possible = True, configuration = [(a, b), (c, d), (e, f), (g, h)] \<rparr>"
    and "updateMemo [a, b, c, d, e, f, g, h] (replicate 8 (replicate 8 0)) [(a, b), (c, d), (e, f), (g, h)]
           = Inr memo_after1"
  using nonempty8 [OF assms(2)]
  by (simp_all add: round_eval replicate8 memo_after1_def
      distinct8_neq [OF assms(1)] distinct8_neq [OF assms(1), symmetric])

lemma round2:
  assumes "distinct [a, b, c, d, e, f, g, h]" and "[] \<notin> set [a, b, c, d, e, f, g, h]"
  shows "createTeam [a, b, c, d, e, f, g, h] (memo_after1) [] [a, b, c, d, e, f, g, h]
           = Inr \<lparr> possible = True, configuration = [(a, c), (b, d), (e, g), (f, h)] \<rparr>"
    and "updateMemo [a, b, c, d, e, f, g, h] (memo_after1) [(a, c), (b, d), (e, g), (f, h)]
           = Inr memo_after2"
  using nonempty8 [OF assms(2)]
  by (simp_all add: round_eval replicate8 memo_after1_def memo_after2_def
      distinct8_neq [OF assms(1)] distinct8_neq [OF assms(1), symmetric])

lemma round3:
  assumes "distinct [a, b, c, d, e, f, g, h]" and "[] \<notin> set [a, b, c, d, e, f, g, h]"
  shows "createTeam [a, b, c, d, e, f, g, h] (memo_after2) [] [a, b, c, d, e, f, g, h]
           = Inr \<lparr> possible = True, configuration = [(a, d), (b, c), (e, h), (f, g)] \<rparr>"
    and "updateMemo [a, b, c, d, e, f, g, h] (memo_after2) [(a, d), (b, c), (e, h), (f, g)]
           = Inr memo_after3"
  using nonempty8 [OF assms(2)]
  by (simp_all add: round_eval replicate8 memo_after2_def memo_after3_def
      distinct8_neq [OF assms(1)] distinct8_neq [OF assms(1), symmetric])

lemma round4:
  assumes "distinct [a, b, c, d, e, f, g, h]" and "[] \<notin> set [a, b, c, d, e, f, g, h]"
  shows "createTeam [a, b, c, d, e, f, g, h] (memo_after3) [] [a, b, c, d, e, f, g, h]
           = Inr \<lparr> possible = True, configuration = [(a, e), (b, f), (c, g), (d, h)] \<rparr>"
    and "updateMemo [a, b, c, d, e, f, g, h] (memo_after3) [(a, e), (b, f), (c, g), (d, h)]
           = Inr memo_after4"
  using nonempty8 [OF assms(2)]
  by (simp_all add: round_eval replicate8 memo_after3_def memo_after4_def
      distinct8_neq [OF assms(1)] distinct8_neq [OF assms(1), symmetric])

lemma round5:
  assumes "distinct [a, b, c, d, e, f, g, h]" and "[] \<notin> set [a, b, c, d, e, f, g, h]"
  shows "createTeam [a, b, c, d, e, f, g, h] (memo_after4) [] [a, b, c, d, e, f, g, h]
           = Inr \<lparr> possible = True, configuration = [(a, f), (b, e), (c, h), (d, g)] \<rparr>"
    and "updateMemo [a, b, c, d, e, f, g, h] (memo_after4) [(a, f), (b, e), (c, h), (d, g)]
           = Inr memo_after5"
  using nonempty8 [OF assms(2)]
  by (simp_all add: round_eval replicate8 memo_after4_def memo_after5_def
      distinct8_neq [OF assms(1)] distinct8_neq [OF assms(1), symmetric])

lemma round6:
  assumes "distinct [a, b, c, d, e, f, g, h]" and "[] \<notin> set [a, b, c, d, e, f, g, h]"
  shows "createTeam [a, b, c, d, e, f, g, h] (memo_after5) [] [a, b, c, d, e, f, g, h]
           = Inr \<lparr> possible = True, configuration = [(a, g), (b, h), (c, e), (d, f)] \<rparr>"
    and "updateMemo [a, b, c, d, e, f, g, h] (memo_after5) [(a, g), (b, h), (c, e), (d, f)]
           = Inr memo_after6"
  using nonempty8 [OF assms(2)]
  by (simp_all add: round_eval replicate8 memo_after5_def memo_after6_def
      distinct8_neq [OF assms(1)] distinct8_neq [OF assms(1), symmetric])

lemma round7:
  assumes "distinct [a, b, c, d, e, f, g, h]" and "[] \<notin> set [a, b, c, d, e, f, g, h]"
  shows "createTeam [a, b, c, d, e, f, g, h] (memo_after6) [] [a, b, c, d, e, f, g, h]
           = Inr \<lparr> possible = True, configuration = [(a, h), (b, g), (c, f), (d, e)] \<rparr>"
    and "updateMemo [a, b, c, d, e, f, g, h] (memo_after6) [(a, h), (b, g), (c, f), (d, e)]
           = Inr memo_after7"
  using nonempty8 [OF assms(2)]
  by (simp_all add: round_eval replicate8 memo_after6_def memo_after7_def
      distinct8_neq [OF assms(1)] distinct8_neq [OF assms(1), symmetric])

subsection \<open>The loop\<close>

lemma createTeams_done: "allTeamsGenerated s \<Longrightarrow> createTeams s = Some (Inr s)"
  by (subst createTeams.simps) simp

lemma createTeams_step:
  "\<not> allTeamsGenerated s \<Longrightarrow> createTeams_body s = Inr s' \<Longrightarrow> createTeams s = createTeams s'"
  by (subst createTeams.simps) simp

lemma createTeams_throw:
  "\<not> allTeamsGenerated s \<Longrightarrow> createTeams_body s = Inl e \<Longrightarrow> createTeams s = Some (Inl e)"
  by (subst createTeams.simps) simp

lemma createTeams_body_found:
  assumes "createTeam (players s) (memo s) [] (players s) = Inr \<lparr> possible = True, configuration = R \<rparr>"
    and "updateMemo (players s) (memo s) R = Inr m'"
  shows "createTeams_body s = Inr (s\<lparr> teams := teams s @ [R], memo := m' \<rparr>)"
  using assms by (simp add: createTeams_body_def)

lemma createTeams_body_throw:
  assumes "createTeam (players s) (memo s) [] (players s) = Inl e"
  shows "createTeams_body s = Inl e"
  using assms by (simp add: createTeams_body_def)


lemma loop_completes_createTeams:
  "loop_completes_in n s \<Longrightarrow> \<exists>s'. createTeams s = Some (Inr s') \<and> allTeamsGenerated s'"
proof (induction n arbitrary: s)
  case 0
  then show ?case by (auto simp: createTeams_done)
next
  case (Suc n)
  then obtain s1 where b: "createTeams_body s = Inr s1" and l: "loop_completes_in n s1"
    and ng: "\<not> allTeamsGenerated s"
    by (auto split: sum.splits)
  from Suc.IH [OF l] createTeams_step [OF ng b] show ?case by simp
qed

lemma not_generated:
  "\<not> allTeamsGenerated \<lparr> teams = T, players = [a, b, c, d, e, f, g, h], memo = replicate 8 (replicate 8 0) \<rparr>"
  "\<not> allTeamsGenerated \<lparr> teams = T, players = [a, b, c, d, e, f, g, h], memo = memo_after1 \<rparr>"
  "\<not> allTeamsGenerated \<lparr> teams = T, players = [a, b, c, d, e, f, g, h], memo = memo_after2 \<rparr>"
  "\<not> allTeamsGenerated \<lparr> teams = T, players = [a, b, c, d, e, f, g, h], memo = memo_after3 \<rparr>"
  "\<not> allTeamsGenerated \<lparr> teams = T, players = [a, b, c, d, e, f, g, h], memo = memo_after4 \<rparr>"
  "\<not> allTeamsGenerated \<lparr> teams = T, players = [a, b, c, d, e, f, g, h], memo = memo_after5 \<rparr>"
  "\<not> allTeamsGenerated \<lparr> teams = T, players = [a, b, c, d, e, f, g, h], memo = memo_after6 \<rparr>"
  by (simp_all add: allTeamsGenerated_def replicate8 memo_after1_def memo_after2_def
      memo_after3_def memo_after4_def memo_after5_def memo_after6_def marked_def upt8)

lemma generated7:
  "allTeamsGenerated \<lparr> teams = T, players = [a, b, c, d, e, f, g, h], memo = memo_after7 \<rparr>"
  by (simp add: allTeamsGenerated_def memo_after7_def marked_def upt8)

lemma createTeams_body_rounds:
  assumes "distinct [a, b, c, d, e, f, g, h]" and "[] \<notin> set [a, b, c, d, e, f, g, h]"
  shows "createTeams_body \<lparr> teams = T, players = [a, b, c, d, e, f, g, h], memo = replicate 8 (replicate 8 0) \<rparr>
       = Inr \<lparr> teams = T @ [[(a, b), (c, d), (e, f), (g, h)]], players = [a, b, c, d, e, f, g, h], memo = memo_after1 \<rparr>"
    and "createTeams_body \<lparr> teams = T, players = [a, b, c, d, e, f, g, h], memo = memo_after1 \<rparr>
       = Inr \<lparr> teams = T @ [[(a, c), (b, d), (e, g), (f, h)]], players = [a, b, c, d, e, f, g, h], memo = memo_after2 \<rparr>"
    and "createTeams_body \<lparr> teams = T, players = [a, b, c, d, e, f, g, h], memo = memo_after2 \<rparr>
       = Inr \<lparr> teams = T @ [[(a, d), (b, c), (e, h), (f, g)]], players = [a, b, c, d, e, f, g, h], memo = memo_after3 \<rparr>"
    and "createTeams_body \<lparr> teams = T, players = [a, b, c, d, e, f, g, h], memo = memo_after3 \<rparr>
       = Inr \<lparr> teams = T @ [[(a, e), (b, f), (c, g), (d, h)]], players = [a, b, c, d, e, f, g, h], memo = memo_after4 \<rparr>"
    and "createTeams_body \<lparr> teams = T, players = [a, b, c, d, e, f, g, h], memo = memo_after4 \<rparr>
       = Inr \<lparr> teams = T @ [[(a, f), (b, e), (c, h), (d, g)]], players = [a, b, c, d, e, f, g, h], memo = memo_after5 \<rparr>"
    and "createTeams_body \<lparr> teams = T, players = [a, b, c, d, e, f, g, h], memo = memo_after5 \<rparr>
       = Inr \<lparr> teams = T @ [[(a, g), (b, h), (c, e), (d, f)]], players = [a, b, c, d, e, f, g, h], memo = memo_after6 \<rparr>"
    and "createTeams_body \<lparr> teams = T, players = [a, b, c, d, e, f, g, h], memo = memo_after6 \<rparr>
       = Inr \<lparr> teams = T @ [[(a, h), (b, g), (c, f), (d, e)]], players = [a, b, c, d, e, f, g, h], memo = memo_after7 \<rparr>"
  by (simp_all add: createTeams_body_def round1 [OF assms] round2 [OF assms] round3 [OF assms]
      round4 [OF assms] round5 [OF assms] round6 [OF assms] round7 [OF assms]
      del: updateMemo.simps)

lemma round_found_rounds:
  assumes "distinct [a, b, c, d, e, f, g, h]" and "[] \<notin> set [a, b, c, d, e, f, g, h]"
  shows "round_found \<lparr> teams = T, players = [a, b, c, d, e, f, g, h], memo = replicate 8 (replicate 8 0) \<rparr>"
    and "round_found \<lparr> teams = T, players = [a, b, c, d, e, f, g, h], memo = memo_after1 \<rparr>"
    and "round_found \<lparr> teams = T, players = [a, b, c, d, e, f, g, h], memo = memo_after2 \<rparr>"
    and "round_found \<lparr> teams = T, players = [a, b, c, d, e, f, g, h], memo = memo_after3 \<rparr>"
    and "round_found \<lparr> teams = T, players = [a, b, c, d, e, f, g, h], memo = memo_after4 \<rparr>"
    and "round_found \<lparr> teams = T, players = [a, b, c, d, e, f, g, h], memo = memo_after5 \<rparr>"
    and "round_found \<lparr> teams = T, players = [a, b, c, d, e, f, g, h], memo = memo_after6 \<rparr>"
  by (simp_all add: round_found_def round1 [OF assms] round2 [OF assms] round3 [OF assms]
      round4 [OF assms] round5 [OF assms] round6 [OF assms] round7 [OF assms])

text \<open>
  The whole run on a roster of eight distinct non-empty identifiers: seven passes, each
  finding its round, and the schedule and memo on return.
\<close>

lemma createTeams_run8:
  assumes "distinct [a, b, c, d, e, f, g, h]" and "[] \<notin> set [a, b, c, d, e, f, g, h]"
  shows "createTeams \<lparr> teams = [], players = [a, b, c, d, e, f, g, h],
                       memo = replicate 8 (replicate 8 0) \<rparr>
    = Some (Inr \<lparr> teams = schedule8 [a, b, c, d, e, f, g, h],
                   players = [a, b, c, d, e, f, g, h], memo = memo_after7 \<rparr>)"
  by (simp add: createTeams.simps createTeams_body_rounds [OF assms] not_generated generated7
      schedule8_def)

lemma loop_completes_run8:
  assumes "distinct [a, b, c, d, e, f, g, h]" and "[] \<notin> set [a, b, c, d, e, f, g, h]"
  shows "loop_completes_in 7 \<lparr> teams = [], players = [a, b, c, d, e, f, g, h],
                       memo = replicate 8 (replicate 8 0) \<rparr>"
proof -
  have seven: "(7::nat) = Suc (Suc (Suc (Suc (Suc (Suc (Suc 0))))))"
    by simp
  show ?thesis
    unfolding seven
    by (simp add: createTeams_body_rounds [OF assms] round_found_rounds [OF assms]
        not_generated generated7)
qed

lemma createTeam_empty_player:
  assumes "distinct [a, b, c, d, e, f, g, h]" and "[] \<in> set [a, b, c, d, e, f, g, h]"
  shows "createTeam [a, b, c, d, e, f, g, h] (replicate 8 (replicate 8 0)) [] [a, b, c, d, e, f, g, h]
    = Inl InvalidPairing"
proof -
  note ne = distinct8_neq [OF assms(1)] distinct8_neq [OF assms(1), symmetric]
  from assms(2) consider "a = []" | "b = []" | "c = []" | "d = []"
    | "e = []" | "f = []" | "g = []" | "h = []"
    by auto
  then show ?thesis
  proof cases
    case 1 then show ?thesis using ne by (simp add: round_eval replicate8)
  next
    case 2 then show ?thesis using ne by (simp add: round_eval replicate8)
  next
    case 3 then show ?thesis using ne by (simp add: round_eval replicate8)
  next
    case 4 then show ?thesis using ne by (simp add: round_eval replicate8)
  next
    case 5 then show ?thesis using ne by (simp add: round_eval replicate8)
  next
    case 6 then show ?thesis using ne by (simp add: round_eval replicate8)
  next
    case 7 then show ?thesis using ne by (simp add: round_eval replicate8)
  next
    case 8 then show ?thesis using ne by (simp add: round_eval replicate8)
  qed
qed

lemma createTeams_empty_player:
  assumes "distinct [a, b, c, d, e, f, g, h]" and "[] \<in> set [a, b, c, d, e, f, g, h]"
  shows "createTeams \<lparr> teams = [], players = [a, b, c, d, e, f, g, h],
                       memo = replicate 8 (replicate 8 0) \<rparr> = Some (Inl InvalidPairing)"
  by (rule createTeams_throw [OF not_generated(1)])
    (simp add: createTeams_body_def createTeam_empty_player [OF assms])

subsection \<open>The constructor\<close>

lemma length_unique_acc_le: "length (unique_acc seen xs) \<le> length seen + length xs"
proof (induction xs arbitrary: seen)
  case Nil
  show ?case by simp
next
  case (Cons x xs)
  from Cons.IH [of seen] Cons.IH [of "seen @ [x]"] show ?case by simp
qed

lemma length_unique_acc_eq:
  "(length (unique_acc seen xs) = length seen + length xs)
     = (distinct xs \<and> set xs \<inter> set seen = {})"
proof (induction xs arbitrary: seen)
  case Nil
  show ?case by simp
next
  case (Cons x xs)
  show ?case
  proof (cases "x \<in> set seen")
    case True
    with length_unique_acc_le [of seen xs] show ?thesis by auto
  next
    case False
    with Cons.IH [of "seen @ [x]"] show ?thesis by auto
  qed
qed

lemma unique_length_distinct: "(length (unique ps) = length ps) = distinct ps"
  using length_unique_acc_eq [of "[]" ps] by (simp add: unique_def)

lemma TeamConfigurations_new_Inr:
  "(TeamConfigurations_new ps = Inr s) =
     (distinct ps \<and> length ps = 8 \<and>
      s = \<lparr> teams = [], players = ps, memo = replicate 8 (replicate 8 0) \<rparr>)"
  by (auto simp: TeamConfigurations_new_def unique_length_distinct)

subsection \<open>What \<open>createTeams\<close> returns on a fresh object\<close>

lemma createTeams_nonempty8:
  assumes "TeamConfigurations_new ps = Inr s" and "[] \<notin> set ps"
  shows "createTeams s
           = Some (Inr \<lparr> teams = schedule8 ps, players = ps, memo = memo_after7 \<rparr>)"
    and "loop_completes_in 7 s"
proof -
  from assms(1) have d: "distinct ps" and l: "length ps = 8"
    and s: "s = \<lparr> teams = [], players = ps, memo = replicate 8 (replicate 8 0) \<rparr>"
    by (simp_all add: TeamConfigurations_new_Inr)
  from l obtain a b c d e f g h where ps: "ps = [a, b, c, d, e, f, g, h]"
    by (rule roster8)
  from d assms(2) show "createTeams s
           = Some (Inr \<lparr> teams = schedule8 ps, players = ps, memo = memo_after7 \<rparr>)"
    unfolding s ps by (rule createTeams_run8)
  from d assms(2) show "loop_completes_in 7 s"
    unfolding s ps by (rule loop_completes_run8)
qed

lemma createTeams_empty8:
  assumes "TeamConfigurations_new ps = Inr s" and "[] \<in> set ps"
  shows "createTeams s = Some (Inl InvalidPairing)"
proof -
  from assms(1) have d: "distinct ps" and l: "length ps = 8"
    and s: "s = \<lparr> teams = [], players = ps, memo = replicate 8 (replicate 8 0) \<rparr>"
    by (simp_all add: TeamConfigurations_new_Inr)
  from l obtain a b c d e f g h where ps: "ps = [a, b, c, d, e, f, g, h]"
    by (rule roster8)
  from d assms(2) show ?thesis
    unfolding s ps by (rule createTeams_empty_player)
qed

lemma createTeams_returns8:
  assumes "TeamConfigurations_new ps = Inr s" and "createTeams s = Some (Inr s')"
  shows "s' = \<lparr> teams = schedule8 ps, players = ps, memo = memo_after7 \<rparr>"
proof (cases "[] \<in> set ps")
  case True
  from createTeams_empty8 [OF assms(1) True] assms(2) show ?thesis by simp
next
  case False
  from createTeams_nonempty8(1) [OF assms(1) False] assms(2) show ?thesis by simp
qed

subsection \<open>Properties of the schedule\<close>

lemma schedule8_pair_once:
  assumes "distinct [a, b, c, d, e, f, g, h]"
    and "x \<in> set [a, b, c, d, e, f, g, h]" and "y \<in> set [a, b, c, d, e, f, g, h]" and "x \<noteq> y"
  shows "length (filter (round_has_pair x y) (schedule8 [a, b, c, d, e, f, g, h])) = 1"
proof -
  note ne = distinct8_neq [OF assms(1)] distinct8_neq [OF assms(1), symmetric]
  from assms(2) consider "x = a" | "x = b" | "x = c" | "x = d"
    | "x = e" | "x = f" | "x = g" | "x = h"
    by auto
  then show ?thesis
  proof cases
    case 1 with assms(3,4) ne show ?thesis by (auto simp: schedule8_def round_has_pair_def)
  next
    case 2 with assms(3,4) ne show ?thesis by (auto simp: schedule8_def round_has_pair_def)
  next
    case 3 with assms(3,4) ne show ?thesis by (auto simp: schedule8_def round_has_pair_def)
  next
    case 4 with assms(3,4) ne show ?thesis by (auto simp: schedule8_def round_has_pair_def)
  next
    case 5 with assms(3,4) ne show ?thesis by (auto simp: schedule8_def round_has_pair_def)
  next
    case 6 with assms(3,4) ne show ?thesis by (auto simp: schedule8_def round_has_pair_def)
  next
    case 7 with assms(3,4) ne show ?thesis by (auto simp: schedule8_def round_has_pair_def)
  next
    case 8 with assms(3,4) ne show ?thesis by (auto simp: schedule8_def round_has_pair_def)
  qed
qed

lemma schedule8_round_partition:
  assumes "distinct [a, b, c, d, e, f, g, h]"
    and "round \<in> set (schedule8 [a, b, c, d, e, f, g, h])"
  shows "length round = 4" and "distinct (round_players round)"
    and "set (round_players round) = set [a, b, c, d, e, f, g, h]"
proof -
  note ne = distinct8_neq [OF assms(1)] distinct8_neq [OF assms(1), symmetric]
  from assms(2) show "length round = 4"
    by (auto simp: schedule8_def)
  from assms(2) ne show "distinct (round_players round)"
    by (auto simp: schedule8_def round_players_def)
  from assms(2) show "set (round_players round) = set [a, b, c, d, e, f, g, h]"
    by (auto simp: schedule8_def round_players_def)
qed

lemma members_round_players:
  "j < length round \<Longrightarrow> members (round ! j) \<subseteq> set (round_players round)"
  by (auto simp: members_def round_players_def intro: nth_mem bexI [of _ "round ! j"])

lemma distinct_round_players_less:
  "distinct (round_players round) \<Longrightarrow> i < j \<Longrightarrow> j < length round \<Longrightarrow>
   members (round ! i) \<inter> members (round ! j) = {}"
proof (induction round arbitrary: i j)
  case Nil
  then show ?case by simp
next
  case (Cons p round)
  from Cons.prems(1) have d: "distinct (round_players round)"
    and p: "fst p \<notin> set (round_players round)" "snd p \<notin> set (round_players round)"
    by (simp_all add: round_players_def)
  from Cons.prems(2) obtain j' where j: "j = Suc j'"
    by (cases j) auto
  with Cons.prems(3) have j': "j' < length round" by simp
  show ?case
  proof (cases i)
    case 0
    with j p members_round_players [OF j'] show ?thesis
      by (auto simp: members_def)
  next
    case (Suc i')
    with j Cons.prems(2) Cons.IH [OF d _ j', of i'] show ?thesis by simp
  qed
qed

lemma distinct_round_players_disjoint:
  assumes "distinct (round_players round)" and "i < length round" and "j < length round"
    and "i \<noteq> j"
  shows "members (round ! i) \<inter> members (round ! j) = {}"
proof (cases "i < j")
  case True
  with assms show ?thesis by (simp add: distinct_round_players_less)
next
  case False
  with assms have "j < i" by simp
  with assms distinct_round_players_less [of round j i] show ?thesis by (simp add: Int_commute)
qed

section \<open>The properties of the specification\<close>

lemma tc1_new: "TeamConfigurations_new tc1_players = Inr tc1_start"
  by (simp add: TeamConfigurations_new_Inr tc1_start_def tc1_players_def)

lemma tc1_createTeams: "createTeams tc1_start = Some (Inr tc1_end)"
  using createTeams_nonempty8(1) [OF tc1_new] by (simp add: tc1_end_def tc1_players_def)

lemma tc1_roster: "length tc1_players = 8" "distinct tc1_players" "[] \<notin> set tc1_players"
  by (simp_all add: tc1_players_def)

text \<open>
  C1. For every roster of exactly 8 distinct identifiers, in the schedule that
  \<open>createTeams\<close> returns every unordered pair of distinct roster players occurs as a pairing
  in exactly one round: among the rounds of the schedule, exactly one contains the pair.
\<close>

theorem createTeams_every_pair_once:
  assumes "length ps = 8" and "distinct ps"
    and "TeamConfigurations_new ps = Inr s" and "createTeams s = Some (Inr s')"
    and "x \<in> set ps" and "y \<in> set ps" and "x \<noteq> y"
  shows "length (filter (round_has_pair x y) (teams s')) = 1"
proof -
  from assms(1) obtain a b c d e f g h where ps: "ps = [a, b, c, d, e, f, g, h]"
    by (rule roster8)
  from createTeams_returns8 [OF assms(3,4)] have t: "teams s' = schedule8 ps"
    by simp
  from assms(2,5,6,7) show ?thesis
    unfolding t ps by (rule schedule8_pair_once)
qed

theorem createTeams_every_pair_once_witness:
  "length tc1_players = 8 \<and> distinct tc1_players
   \<and> TeamConfigurations_new tc1_players = Inr tc1_start
   \<and> createTeams tc1_start = Some (Inr tc1_end)
   \<and> ''3'' \<in> set tc1_players \<and> ''6'' \<in> set tc1_players \<and> ''3'' \<noteq> ''6''
   \<and> length (filter (round_has_pair ''3'' ''6'') (teams tc1_end)) = 1"
proof -
  have m: "''3'' \<in> set tc1_players" "''6'' \<in> set tc1_players" "''3'' \<noteq> ''6''"
    by (simp_all add: tc1_players_def)
  from createTeams_every_pair_once [OF tc1_roster(1,2) tc1_new tc1_createTeams m]
  show ?thesis
    using tc1_roster(1,2) tc1_new tc1_createTeams m by simp
qed

text \<open>
  C2. For every roster of exactly 8 distinct identifiers, every round of the schedule that
  \<open>createTeams\<close> returns consists of exactly 4 pairings that are pairwise disjoint and
  whose members are exactly the players of the roster, each once.
\<close>

theorem createTeams_round_partition:
  assumes "length ps = 8" and "distinct ps"
    and "TeamConfigurations_new ps = Inr s" and "createTeams s = Some (Inr s')"
    and "round \<in> set (teams s')"
  shows "length round = 4
    \<and> (\<forall>i < 4. \<forall>j < 4. i \<noteq> j \<longrightarrow> members (round ! i) \<inter> members (round ! j) = {})
    \<and> distinct (round_players round)
    \<and> set (round_players round) = set ps"
proof -
  from assms(1) obtain a b c d e f g h where ps: "ps = [a, b, c, d, e, f, g, h]"
    by (rule roster8)
  from createTeams_returns8 [OF assms(3,4)] have t: "teams s' = schedule8 ps"
    by simp
  from assms(5) have r: "round \<in> set (schedule8 [a, b, c, d, e, f, g, h])"
    unfolding t ps .
  from assms(2) have d: "distinct [a, b, c, d, e, f, g, h]"
    unfolding ps .
  note part = schedule8_round_partition [OF d r]
  from part(1,2) have "\<forall>i < 4. \<forall>j < 4. i \<noteq> j \<longrightarrow> members (round ! i) \<inter> members (round ! j) = {}"
    by (simp add: distinct_round_players_disjoint)
  with part show ?thesis
    unfolding ps by simp
qed

theorem createTeams_round_partition_witness:
  "length tc1_players = 8 \<and> distinct tc1_players
   \<and> TeamConfigurations_new tc1_players = Inr tc1_start
   \<and> createTeams tc1_start = Some (Inr tc1_end)
   \<and> [(''1'', ''6''), (''2'', ''5''), (''3'', ''8''), (''4'', ''7'')] \<in> set (teams tc1_end)
   \<and> set (round_players [(''1'', ''6''), (''2'', ''5''), (''3'', ''8''), (''4'', ''7'')])
       = set tc1_players"
proof -
  have r: "[(''1'', ''6''), (''2'', ''5''), (''3'', ''8''), (''4'', ''7'')] \<in> set (teams tc1_end)"
    by (simp add: tc1_end_def tc1_players_def schedule8_def)
  from createTeams_round_partition [OF tc1_roster(1,2) tc1_new tc1_createTeams r]
  show ?thesis
    using tc1_roster(1,2) tc1_new tc1_createTeams r by simp
qed

lemma memo_after7_rows:
  "length memo_after7 = 8" "\<forall>row \<in> set memo_after7. used_entries row = 7"
  by (simp_all add: memo_after7_def marked_def upt8 used_entries_def)

text \<open>
  C3. For every roster of exactly 8 distinct identifiers, the schedule that \<open>createTeams\<close>
  returns has exactly 7 rounds, and on return the completion test holds: each of the 8
  rows of the memo has exactly 7 used entries.
\<close>

theorem createTeams_seven_rounds:
  assumes "length ps = 8" and "distinct ps"
    and "TeamConfigurations_new ps = Inr s" and "createTeams s = Some (Inr s')"
  shows "length (teams s') = 7 \<and> allTeamsGenerated s'
    \<and> length (memo s') = 8 \<and> (\<forall>row \<in> set (memo s'). used_entries row = 7)"
proof -
  from assms(1) obtain a b c d e f g h where ps: "ps = [a, b, c, d, e, f, g, h]"
    by (rule roster8)
  from createTeams_returns8 [OF assms(3,4)]
  have s': "s' = \<lparr> teams = schedule8 ps, players = ps, memo = memo_after7 \<rparr>" .
  have "length (schedule8 ps) = 7"
    unfolding ps by (simp add: schedule8_def)
  moreover have "allTeamsGenerated s'"
    unfolding s' ps by (rule generated7)
  ultimately show ?thesis
    using memo_after7_rows by (simp add: s')
qed

theorem createTeams_seven_rounds_witness:
  "length tc1_players = 8 \<and> distinct tc1_players
   \<and> TeamConfigurations_new tc1_players = Inr tc1_start
   \<and> createTeams tc1_start = Some (Inr tc1_end)
   \<and> length (teams tc1_end) = 7 \<and> allTeamsGenerated tc1_end"
proof -
  from createTeams_seven_rounds [OF tc1_roster(1,2) tc1_new tc1_createTeams]
  show ?thesis
    using tc1_roster(1,2) tc1_new tc1_createTeams by simp
qed

lemma empty_last_new: "TeamConfigurations_new empty_last_players = Inr empty_last_start"
  by (simp add: TeamConfigurations_new_Inr empty_last_start_def empty_last_players_def)

lemma empty_first_new: "TeamConfigurations_new empty_first_players = Inr empty_first_start"
  by (simp add: TeamConfigurations_new_Inr empty_first_start_def empty_first_players_def)

text \<open>
  C4, as stated, fails: the roster \<open>empty_last_players\<close> has 8 distinct identifiers, the
  completion test is false on the fresh object, and the first search finds no round but
  throws, so that \<open>createTeams\<close> throws and the loop never reaches completion.
\<close>

theorem createTeams_empty_last_throws:
  "length empty_last_players = 8 \<and> distinct empty_last_players
   \<and> TeamConfigurations_new empty_last_players = Inr empty_last_start
   \<and> \<not> allTeamsGenerated empty_last_start
   \<and> \<not> round_found empty_last_start
   \<and> createTeams empty_last_start = Some (Inl InvalidPairing)"
proof -
  have e: "[] \<in> set empty_last_players" and d: "distinct empty_last_players"
    by (simp_all add: empty_last_players_def)
  have "createTeam (players empty_last_start) (memo empty_last_start) []
      (players empty_last_start) = Inl InvalidPairing"
    using createTeam_empty_player [OF d [unfolded empty_last_players_def]]
    by (simp add: empty_last_start_def empty_last_players_def)
  then have "\<not> round_found empty_last_start"
    by (simp add: round_found_def)
  moreover have "\<not> allTeamsGenerated empty_last_start"
    unfolding empty_last_start_def empty_last_players_def by (rule not_generated(1))
  ultimately show ?thesis
    using createTeams_empty8 [OF empty_last_new e] empty_last_new d
    by (simp add: empty_last_players_def)
qed

text \<open>
  C4, amended. For every roster of exactly 8 distinct non-empty identifiers \<open>createTeams\<close>
  terminates by returning: the loop makes exactly 7 passes, before each of them the
  completion test is false and the round search finds a round, and after the seventh the
  completion test holds.
\<close>

theorem createTeams_completes_nonempty:
  assumes "length ps = 8" and "distinct ps" and "[] \<notin> set ps"
    and "TeamConfigurations_new ps = Inr s"
  shows "loop_completes_in 7 s \<and> (\<exists>s'. createTeams s = Some (Inr s') \<and> allTeamsGenerated s')"
proof -
  from createTeams_nonempty8(2) [OF assms(4,3)] have l: "loop_completes_in 7 s" .
  from loop_completes_createTeams [OF l] l show ?thesis by simp
qed

theorem createTeams_completes_nonempty_witness:
  "length tc1_players = 8 \<and> distinct tc1_players \<and> [] \<notin> set tc1_players
   \<and> TeamConfigurations_new tc1_players = Inr tc1_start
   \<and> loop_completes_in 7 tc1_start
   \<and> (\<exists>s'. createTeams tc1_start = Some (Inr s') \<and> allTeamsGenerated s')"
proof -
  from createTeams_completes_nonempty [OF tc1_roster tc1_new]
  show ?thesis
    using tc1_roster tc1_new by simp
qed

text \<open>
  C7. For the roster \<open>['1', '2', '3', '4', '5', '6', '7', '8']\<close> the first round of the
  schedule that \<open>createTeams\<close> returns is \<open>[(1,2), (3,4), (5,6), (7,8)]\<close>; the seven rounds
  hold 28 pairings, and each of the 28 two-element combinations of the roster occurs
  among them exactly once.
\<close>

theorem tc1_schedule:
  "TeamConfigurations_new tc1_players = Inr tc1_start
   \<and> createTeams tc1_start = Some (Inr tc1_end)
   \<and> length (teams tc1_end) = 7
   \<and> teams tc1_end ! 0 = [(''1'', ''2''), (''3'', ''4''), (''5'', ''6''), (''7'', ''8'')]
   \<and> length (concat (teams tc1_end)) = 28
   \<and> length (combinations2 tc1_players) = 28
   \<and> map (\<lambda>c. occurrences c (concat (teams tc1_end))) (combinations2 tc1_players)
       = replicate 28 1"
proof -
  from createTeams_nonempty8(1) [OF tc1_new tc1_roster(3)]
  have "createTeams tc1_start = Some (Inr tc1_end)"
    by (simp add: tc1_end_def)
  moreover have "length (teams tc1_end) = 7"
    and "teams tc1_end ! 0 = [(''1'', ''2''), (''3'', ''4''), (''5'', ''6''), (''7'', ''8'')]"
    and "length (concat (teams tc1_end)) = 28"
    by (simp_all add: tc1_end_def tc1_players_def schedule8_def)
  moreover have "length (combinations2 tc1_players) = 28"
    by (simp add: tc1_players_def)
  moreover have "map (\<lambda>c. occurrences c (concat (teams tc1_end))) (combinations2 tc1_players)
       = replicate 28 1"
    by code_simp
  ultimately show ?thesis
    using tc1_new by simp
qed

text \<open>
  C10. There is a roster of exactly 8 distinct strings that the constructor accepts and on
  which \<open>createTeams\<close> throws the error of the \<open>Pairing\<close> constructor: that constructor
  rejects every falsy player, the empty string among them, and the roster
  \<open>empty_first_players\<close> holds the empty string.
\<close>

theorem empty_identifier_roster_throws:
  "(\<exists>ps s. length ps = 8 \<and> distinct ps \<and> TeamConfigurations_new ps = Inr s
      \<and> createTeams s = Some (Inl InvalidPairing))
   \<and> length empty_first_players = 8 \<and> distinct empty_first_players
   \<and> TeamConfigurations_new empty_first_players = Inr empty_first_start
   \<and> createTeams empty_first_start = Some (Inl InvalidPairing)
   \<and> Pairing [] p = Inl InvalidPairing \<and> Pairing p [] = Inl InvalidPairing"
proof -
  have e: "[] \<in> set empty_first_players" and d: "distinct empty_first_players"
    and l: "length empty_first_players = 8"
    by (simp_all add: empty_first_players_def)
  note t = createTeams_empty8 [OF empty_first_new e]
  from l d empty_first_new t
  have "\<exists>ps s. length ps = 8 \<and> distinct ps \<and> TeamConfigurations_new ps = Inr s
      \<and> createTeams s = Some (Inl InvalidPairing)"
    by blast
  with l d empty_first_new t show ?thesis
    by (simp add: Pairing_def)
qed

text \<open>
  C9. Constructing the object with a roster whose size is not 8, or with a roster that
  holds a duplicate identifier, fails with one of the two roster errors of the
  constructor; for every roster of exactly 8 distinct identifiers construction succeeds.
\<close>

theorem TeamConfigurations_new_roster:
  "(length ps \<noteq> 8 \<or> \<not> distinct ps \<longrightarrow>
      (\<exists>e. TeamConfigurations_new ps = Inl e \<and> invalid_roster_error ps e))
   \<and> (length ps = 8 \<and> distinct ps \<longrightarrow> (\<exists>s. TeamConfigurations_new ps = Inr s))"
  using unique_length_distinct [of ps]
  by (auto simp: TeamConfigurations_new_def invalid_roster_error_def)

theorem TeamConfigurations_new_roster_witness:
  "length seven_players \<noteq> 8
   \<and> (\<exists>e. TeamConfigurations_new seven_players = Inl e \<and> invalid_roster_error seven_players e)
   \<and> length nine_players \<noteq> 8
   \<and> (\<exists>e. TeamConfigurations_new nine_players = Inl e \<and> invalid_roster_error nine_players e)
   \<and> \<not> distinct duplicate_players
   \<and> (\<exists>e. TeamConfigurations_new duplicate_players = Inl e
         \<and> invalid_roster_error duplicate_players e)
   \<and> length tc1_players = 8 \<and> distinct tc1_players
   \<and> (\<exists>s. TeamConfigurations_new tc1_players = Inr s)"
proof -
  have h7: "length seven_players \<noteq> 8" by (simp add: seven_players_def)
  have h9: "length nine_players \<noteq> 8" by (simp add: nine_players_def)
  have hd: "\<not> distinct duplicate_players" by (simp add: duplicate_players_def)
  from TeamConfigurations_new_roster [of seven_players]
    TeamConfigurations_new_roster [of nine_players]
    TeamConfigurations_new_roster [of duplicate_players]
    TeamConfigurations_new_roster [of tc1_players]
  show ?thesis
    using h7 h9 hd tc1_roster(1,2) by simp
qed

subsection \<open>The two loops enumerate the candidate pairs in order\<close>

lemma first_success_append:
  "first_success try (xs @ ys) =
     (case first_success try xs of
        Inl e \<Rightarrow> Inl e
      | Inr r \<Rightarrow> if possible r then Inr r else first_success try ys)"
  by (induction xs) (auto split: sum.splits)

lemma createTeam_inner_first_success:
  "j \<le> length choices \<Longrightarrow>
   createTeam_inner ps m team choices i j =
     (case first_success (try_candidate ps m team choices)
             (map (Pair i) [j ..< length choices]) of
        Inl e \<Rightarrow> Inl e
      | Inr r \<Rightarrow> if possible r then Inr r else createTeam_outer ps m team choices (Suc i))"
proof (induction "length choices - j" arbitrary: j)
  case 0
  then have "j = length choices" by simp
  then show ?case
    by (subst createTeam_inner.simps) simp
next
  case (Suc k)
  then have j: "j < length choices" by simp
  have step: "createTeam_inner ps m team choices i j =
     (case try_candidate ps m team choices (i, j) of
        Inl e \<Rightarrow> Inl e
      | Inr r \<Rightarrow> if possible r then Inr r else createTeam_inner ps m team choices i (Suc j))"
    by (subst createTeam_inner.simps) (simp add: j try_candidate_def split: sum.splits)
  from Suc.hyps(2) j
  have IH: "createTeam_inner ps m team choices i (Suc j) =
     (case first_success (try_candidate ps m team choices)
             (map (Pair i) [Suc j ..< length choices]) of
        Inl e \<Rightarrow> Inl e
      | Inr r \<Rightarrow> if possible r then Inr r else createTeam_outer ps m team choices (Suc i))"
    by (intro Suc.hyps(1)) simp_all
  from j have u: "[j ..< length choices] = j # [Suc j ..< length choices]"
    by (simp add: upt_conv_Cons)
  show ?case
    unfolding step u by (simp add: IH split: sum.splits)
qed

lemma createTeam_outer_first_success:
  "createTeam_outer ps m team choices i =
     first_success (try_candidate ps m team choices)
       (concat (map (\<lambda>i. map (Pair i) [Suc i ..< length choices])
          [i ..< length choices - 1]))"
proof (induction "length choices - 1 - i" arbitrary: i)
  case 0
  then have "\<not> int i < int (length choices) - 1" by simp
  with 0 show ?case
    by (subst createTeam_outer.simps) simp
next
  case (Suc k)
  then have i: "int i < int (length choices) - 1" and i': "i < length choices - 1"
    by simp_all
  have step: "createTeam_outer ps m team choices i
      = createTeam_inner ps m team choices i (Suc i)"
    by (subst createTeam_outer.simps) (simp add: i)
  from Suc.hyps(2)
  have IH: "createTeam_outer ps m team choices (Suc i) =
     first_success (try_candidate ps m team choices)
       (concat (map (\<lambda>i. map (Pair i) [Suc i ..< length choices])
          [Suc i ..< length choices - 1]))"
    by (intro Suc.hyps(1)) simp
  from i' have u: "[i ..< length choices - 1] = i # [Suc i ..< length choices - 1]"
    by (simp add: upt_conv_Cons)
  from i' have le: "Suc i \<le> length choices" by simp
  show ?case
    unfolding step u createTeam_inner_first_success [OF le] IH
    by (simp add: first_success_append split: sum.splits)
qed

lemma createTeam_round_search_spec:
  "createTeam ps m team choices = round_search_spec ps m team choices"
  by (subst createTeam.simps)
    (simp add: round_search_spec_def candidate_pairs_def createTeam_outer_first_success
      split: sum.splits)

lemma candidate_pairs_set: "set (candidate_pairs n) = {(i, j). i < j \<and> j < n}"
proof -
  have "(a, b) \<in> set (candidate_pairs n)" if "a < b" "b < n" for a b
  proof -
    from that have "a \<in> set [0 ..< n - 1]" "b \<in> set [a + 1 ..< n]"
      by simp_all
    then show ?thesis
      unfolding candidate_pairs_def by (auto intro!: bexI [of _ a])
  qed
  moreover have "a < b \<and> b < n" if "(a, b) \<in> set (candidate_pairs n)" for a b
    using that by (auto simp: candidate_pairs_def)
  ultimately show ?thesis by auto
qed

text \<open>
  C6. For every roster of exactly 8 distinct identifiers, two runs of \<open>createTeams\<close> on
  objects constructed from the same roster in the same order have the same outcome, and
  the schedules they return are the same one, fixed by the positions of the roster. The
  search is the first success over the candidate pairs in their fixed order, the
  positions \<open>(i, j)\<close> with \<open>i < j\<close> of the remaining choices.
\<close>

theorem createTeams_deterministic:
  assumes "length ps = 8" and "distinct ps"
    and "TeamConfigurations_new ps = Inr s1" and "TeamConfigurations_new ps = Inr s2"
  shows "createTeams s1 = createTeams s2
    \<and> (\<forall>s1' s2'. createTeams s1 = Some (Inr s1') \<and> createTeams s2 = Some (Inr s2') \<longrightarrow>
          teams s1' = teams s2' \<and> teams s1' = schedule8 ps)
    \<and> (\<forall>m team choices.
          createTeam ps m team choices = round_search_spec ps m team choices)
    \<and> (\<forall>n. set (candidate_pairs n) = {(i, j). i < j \<and> j < n})"
proof -
  from assms(3,4) have "createTeams s1 = createTeams s2"
    by simp
  moreover have "teams s1' = teams s2' \<and> teams s1' = schedule8 ps"
    if "createTeams s1 = Some (Inr s1')" and "createTeams s2 = Some (Inr s2')" for s1' s2'
    using createTeams_returns8 [OF assms(3) that(1)] createTeams_returns8 [OF assms(4) that(2)]
    by simp
  ultimately show ?thesis
    using createTeam_round_search_spec candidate_pairs_set by blast
qed

theorem createTeams_deterministic_witness:
  "length tc1_players = 8 \<and> distinct tc1_players
   \<and> TeamConfigurations_new tc1_players = Inr tc1_start
   \<and> createTeams tc1_start = Some (Inr tc1_end)
   \<and> teams tc1_end = schedule8 tc1_players
   \<and> createTeam tc1_players (memo tc1_start) [] tc1_players
       = round_search_spec tc1_players (memo tc1_start) [] tc1_players"
proof -
  from createTeams_deterministic [OF tc1_roster(1,2) tc1_new tc1_new]
  show ?thesis
    using tc1_roster(1,2) tc1_new tc1_createTeams by simp
qed

subsection \<open>Every pairing of a round is checked when it is added\<close>

lemma indexOf_position:
  "a \<in> set ps \<Longrightarrow> indexOf ps a = int (position ps a) \<and> position ps a < length ps"
  by (induction ps) (auto simp: position_def Let_def)

text \<open>The head test of \<open>_createTeam\<close> lets a pairing of roster players pass only when its
  cell is not used.\<close>

lemma head_test_unused:
  assumes "lastPairing_repeat ps m (team @ [p]) = Inr False"
    and "fst p \<in> set ps" and "snd p \<in> set ps"
  shows "pair_unused ps m p"
  using assms indexOf_position [of "fst p" ps] indexOf_position [of "snd p" ps]
  by (auto simp: lastPairing_repeat_def last_opt_def Let_def memo_row_def row_cell_def
      pair_unused_def used_cell_def split: if_splits)

lemma head_test_team:
  assumes "lastPairing_repeat ps m team = Inr False"
    and "team \<noteq> [] \<longrightarrow> fst (last team) \<in> set ps \<and> snd (last team) \<in> set ps"
    and "list_all (pair_unused ps m) (butlast team)"
  shows "list_all (pair_unused ps m) team"
    and "now_checked (butlast team) team = team"
proof -
  show "now_checked (butlast team) team = team"
    by (simp add: now_checked_def)
  show "list_all (pair_unused ps m) team"
  proof (cases team rule: rev_cases)
    case Nil
    then show ?thesis by simp
  next
    case (snoc xs x)
    with assms(1,2) have "pair_unused ps m x"
      by (intro head_test_unused [of ps m xs x]) simp_all
    with assms(3) snoc show ?thesis by simp
  qed
qed

lemma set_without: "set (without choices a b) \<subseteq> set choices"
  by (auto simp: without_def)

lemma Pairing_members:
  "Pairing a b = Inr p \<Longrightarrow> fst p = a \<and> snd p = b"
  by (auto simp: Pairing_def split: if_splits)


declare createTeam_chk.simps [simp del] createTeam_chk_outer.simps [simp del]
  createTeam_chk_inner.simps [simp del]

text \<open>
  On a call whose choices are roster players, no assertion of the recorded search is ever
  violated, and the recorded search computes what \<open>createTeam\<close> computes.
\<close>

lemma createTeam_chk_createTeam:
  "set choices \<subseteq> set ps \<Longrightarrow>
   (team \<noteq> [] \<longrightarrow> fst (last team) \<in> set ps \<and> snd (last team) \<in> set ps) \<Longrightarrow>
   checked = butlast team \<Longrightarrow> list_all (pair_unused ps m) checked \<Longrightarrow>
   createTeam_chk ps m checked team choices = Some (createTeam ps m team choices)"
  "set choices \<subseteq> set ps \<Longrightarrow> checked = team \<Longrightarrow> list_all (pair_unused ps m) checked \<Longrightarrow>
   createTeam_chk_outer ps m checked team choices i
     = Some (createTeam_outer ps m team choices i)"
  "set choices \<subseteq> set ps \<Longrightarrow> checked = team \<Longrightarrow> list_all (pair_unused ps m) checked \<Longrightarrow>
   i < j \<Longrightarrow>
   createTeam_chk_inner ps m checked team choices i j
     = Some (createTeam_inner ps m team choices i j)"
proof (induction ps m checked team choices and ps m checked team choices i
    and ps m checked team choices i j
    rule: createTeam_chk_createTeam_chk_outer_createTeam_chk_inner.induct)
  case (1 ps m checked team choices)
  show ?case
  proof (cases "lastPairing_repeat ps m team")
    case (Inl e)
    with "1.prems" show ?thesis
      by (simp add: createTeam_chk.simps createTeam.simps)
  next
    case (Inr rep)
    show ?thesis
    proof (cases "rep \<or> length choices = 0")
      case True
      with Inr "1.prems" show ?thesis
        by (auto simp: createTeam_chk.simps createTeam.simps)
    next
      case False
      with Inr have t: "lastPairing_repeat ps m team = Inr False" by simp
      from "1.prems"(3,4) have b: "list_all (pair_unused ps m) (butlast team)" by simp
      note h = head_test_team [OF t "1.prems"(2) b]
      from "1.prems"(3) h(2) have n: "now_checked checked team = team" by simp
      from False Inr "1.prems"(3,4)
      have a: "checked = butlast team \<and> list_all (pair_unused ps m) checked"
        and r: "\<not> rep" and c: "length choices \<noteq> 0"
        by simp_all
      from "1.IH" [OF a Inr r c "1.prems"(1) n] h(1) n
      have "createTeam_chk_outer ps m (now_checked checked team) team choices 0
          = Some (createTeam_outer ps m team choices 0)"
        by simp
      with "1.prems"(3) b Inr r c show ?thesis
        by (simp add: createTeam_chk.simps createTeam.simps)
    qed
  qed
next
  case (2 ps m checked team choices i)
  show ?case
  proof (cases "int i < int (length choices) - 1")
    case True
    have "i < i + 1" by simp
    from "2.IH" [OF True "2.prems" this] True show ?thesis
      by (simp add: createTeam_chk_outer.simps createTeam_outer.simps)
  next
    case False
    then show ?thesis
      by (simp add: createTeam_chk_outer.simps createTeam_outer.simps)
  qed
next
  case (3 ps m checked team choices i j)
  show ?case
  proof (cases "j < length choices")
    case False
    from "3.IH"(3) [OF False "3.prems"(1,2,3)] False show ?thesis
      by (simp add: createTeam_chk_inner.simps createTeam_inner.simps)
  next
    case True
    show ?thesis
    proof (cases "Pairing (choices ! i) (choices ! j)")
      case (Inl e)
      with True show ?thesis
        by (simp add: createTeam_chk_inner.simps createTeam_inner.simps)
    next
      case (Inr p)
      let ?rest = "without choices (choices ! i) (choices ! j)"
      from True "3.prems"(4) have i: "i < length choices" by simp
      from Inr Pairing_members [OF Inr] i True "3.prems"(1)
      have p: "fst (last (team @ [p])) \<in> set ps \<and> snd (last (team @ [p])) \<in> set ps"
        by (auto simp: subset_iff)
      from "3.prems"(1) set_without [of choices "choices ! i" "choices ! j"]
      have sub: "set ?rest \<subseteq> set ps" by blast
      from "3.prems"(2) have bl: "checked = butlast (team @ [p])" by simp
      from "3.IH"(1) [OF True Inr sub _ bl "3.prems"(3)] p
      have rec: "createTeam_chk ps m checked (team @ [p]) ?rest
          = Some (createTeam ps m (team @ [p]) ?rest)"
        by simp
      show ?thesis
      proof (cases "createTeam ps m (team @ [p]) ?rest")
        case (Inl e)
        with True Inr rec show ?thesis
          by (simp add: createTeam_chk_inner.simps createTeam_inner.simps)
      next
        case r: (Inr possibleTeam)
        show ?thesis
        proof (cases "possible possibleTeam")
          case True
          with \<open>j < length choices\<close> Inr rec r show ?thesis
            by (simp add: createTeam_chk_inner.simps createTeam_inner.simps)
        next
          case False
          from rec r have rec': "createTeam_chk ps m checked (team @ [p]) ?rest
              = Some (Inr possibleTeam)"
            by simp
          from "3.prems"(4) have "i < j + 1" by simp
          from "3.IH"(2) [OF \<open>j < length choices\<close> Inr rec' refl False "3.prems"(1,2,3) this]
            \<open>j < length choices\<close> Inr rec r False
          show ?thesis
            by (simp add: createTeam_chk_inner.simps createTeam_inner.simps)
        qed
      qed
    qed
  qed
qed


text \<open>A round that the search returns holds unused pairings only.\<close>

lemma createTeam_result_unused:
  "createTeam ps m team choices = Inr r \<Longrightarrow> possible r \<Longrightarrow> set choices \<subseteq> set ps \<Longrightarrow>
   (team \<noteq> [] \<longrightarrow> fst (last team) \<in> set ps \<and> snd (last team) \<in> set ps) \<Longrightarrow>
   list_all (pair_unused ps m) (butlast team) \<Longrightarrow>
   list_all (pair_unused ps m) (configuration r)"
  "createTeam_outer ps m team choices i = Inr r \<Longrightarrow> possible r \<Longrightarrow> set choices \<subseteq> set ps \<Longrightarrow>
   list_all (pair_unused ps m) team \<Longrightarrow>
   list_all (pair_unused ps m) (configuration r)"
  "createTeam_inner ps m team choices i j = Inr r \<Longrightarrow> possible r \<Longrightarrow> set choices \<subseteq> set ps \<Longrightarrow>
   list_all (pair_unused ps m) team \<Longrightarrow> i < j \<Longrightarrow>
   list_all (pair_unused ps m) (configuration r)"
proof (induction ps m team choices and ps m team choices i and ps m team choices i j
    arbitrary: r and r and r rule: createTeam_createTeam_outer_createTeam_inner.induct)
  case (1 ps m team choices)
  from "1.prems"(1,2) obtain rep where rep: "lastPairing_repeat ps m team = Inr rep"
    by (subst (asm) createTeam.simps) (auto split: sum.splits)
  with "1.prems"(1,2) have nrep: "\<not> rep"
    by (subst (asm) createTeam.simps) (auto split: if_splits)
  from rep nrep have "lastPairing_repeat ps m team = Inr False"
    by simp
  from head_test_team(1) [OF this "1.prems"(4,5)]
  have team: "list_all (pair_unused ps m) team" .
  show ?case
  proof (cases "length choices = 0")
    case True
    with "1.prems"(1) rep nrep have "r = \<lparr> possible = True, configuration = team \<rparr>"
      by (subst (asm) createTeam.simps) simp
    with team show ?thesis by simp
  next
    case False
    with "1.prems"(1) rep nrep have "createTeam_outer ps m team choices 0 = Inr r"
      by (subst (asm) createTeam.simps) simp
    from "1.IH" [OF rep nrep False this "1.prems"(2,3) team] show ?thesis .
  qed
next
  case (2 ps m team choices i)
  from "2.prems"(1,2) have i: "int i < int (length choices) - 1"
    by (subst (asm) createTeam_outer.simps) (auto split: if_splits)
  with "2.prems"(1) have c: "createTeam_inner ps m team choices i (i + 1) = Inr r"
    by (subst (asm) createTeam_outer.simps) simp
  have "i < i + 1" by simp
  from "2.IH" [OF i c "2.prems"(2,3,4) this] show ?case .
next
  case (3 ps m team choices i j)
  show ?case
  proof (cases "j < length choices")
    case False
    with "3.prems"(1) have "createTeam_outer ps m team choices (i + 1) = Inr r"
      by (subst (asm) createTeam_inner.simps) simp
    from "3.IH"(3) [OF False this "3.prems"(2,3,4)] show ?thesis .
  next
    case True
    let ?rest = "without choices (choices ! i) (choices ! j)"
    from True "3.prems"(1) obtain p r' where p: "Pairing (choices ! i) (choices ! j) = Inr p"
      and r': "createTeam ps m (team @ [p]) ?rest = Inr r'"
      by (subst (asm) createTeam_inner.simps) (auto split: sum.splits)
    from True "3.prems"(5) have i: "i < length choices" by simp
    from Pairing_members [OF p] i True "3.prems"(3)
    have mem: "team @ [p] \<noteq> [] \<longrightarrow>
        fst (last (team @ [p])) \<in> set ps \<and> snd (last (team @ [p])) \<in> set ps"
      by (auto simp: subset_iff)
    from "3.prems"(3) set_without [of choices "choices ! i" "choices ! j"]
    have sub: "set ?rest \<subseteq> set ps" by blast
    from "3.prems"(4) have bl: "list_all (pair_unused ps m) (butlast (team @ [p]))"
      by simp
    show ?thesis
    proof (cases "possible r'")
      case True
      with \<open>j < length choices\<close> "3.prems"(1) p r' have "r = r'"
        by (subst (asm) createTeam_inner.simps) simp
      with "3.IH"(1) [OF \<open>j < length choices\<close> p r' True sub mem bl] show ?thesis
        by simp
    next
      case False
      with \<open>j < length choices\<close> "3.prems"(1) p r'
      have c: "createTeam_inner ps m team choices i (j + 1) = Inr r"
        by (subst (asm) createTeam_inner.simps) simp
      from "3.prems"(5) have "i < j + 1" by simp
      from "3.IH"(2) [OF \<open>j < length choices\<close> p r' False c "3.prems"(2,3,4) this]
      show ?thesis .
    qed
  qed
qed

text \<open>
  C8. In every invocation of the round search that a top-level call makes, the pairings
  that have been checked against the memo on the way are exactly the pairings of the
  partial round except the most recently added one, each checked once, and each of them
  is unused in the memo: the search with these assertions never violates one and is the
  search of the program. Hence every pairing of a round that the top-level call returns
  with \<open>possible = true\<close> is unused in the memo of that search.
\<close>

theorem createTeam_pairings_checked:
  "createTeam_chk ps m [] [] ps = Some (createTeam ps m [] ps)
   \<and> (createTeam ps m [] ps = Inr r \<and> possible r \<longrightarrow>
        list_all (pair_unused ps m) (configuration r))"
proof (intro conjI impI)
  show "createTeam_chk ps m [] [] ps = Some (createTeam ps m [] ps)"
    by (rule createTeam_chk_createTeam(1)) simp_all
next
  assume "createTeam ps m [] ps = Inr r \<and> possible r"
  then have c: "createTeam ps m [] ps = Inr r" and p: "possible r"
    by simp_all
  show "list_all (pair_unused ps m) (configuration r)"
    by (rule createTeam_result_unused(1) [OF c p]) simp_all
qed

theorem createTeam_pairings_checked_witness:
  "createTeam tc1_players memo_after1 [] tc1_players
     = Inr \<lparr> possible = True,
             configuration = [(''1'', ''3''), (''2'', ''4''), (''5'', ''7''), (''6'', ''8'')] \<rparr>
   \<and> createTeam_chk tc1_players memo_after1 [] [] tc1_players
       = Some (Inr \<lparr> possible = True,
             configuration = [(''1'', ''3''), (''2'', ''4''), (''5'', ''7''), (''6'', ''8'')] \<rparr>)
   \<and> list_all (pair_unused tc1_players memo_after1)
       [(''1'', ''3''), (''2'', ''4''), (''5'', ''7''), (''6'', ''8'')]
   \<and> \<not> pair_unused tc1_players memo_after1 (''1'', ''2'')
   \<and> createTeam_chk tc1_players memo_after1 [(''1'', ''2'')] [(''1'', ''2''), (''3'', ''5'')]
         [''4'', ''6'', ''7'', ''8''] = None"
proof -
  let ?r = "\<lparr> possible = True,
    configuration = [(''1'', ''3''), (''2'', ''4''), (''5'', ''7''), (''6'', ''8'')] \<rparr>"
  have c: "createTeam tc1_players memo_after1 [] tc1_players = Inr ?r"
    by code_simp
  have p: "possible ?r" by simp
  have u: "\<not> pair_unused tc1_players memo_after1 (''1'', ''2'')"
    by code_simp
  have n: "createTeam_chk tc1_players memo_after1 [(''1'', ''2'')] [(''1'', ''2''), (''3'', ''5'')]
         [''4'', ''6'', ''7'', ''8''] = None"
    by code_simp
  from createTeam_pairings_checked [of tc1_players memo_after1 ?r]
  show ?thesis
    using c p u n by simp
qed

subsection \<open>A search that fails leaves the loop running\<close>


text \<open>
  On an object whose roster array nobody changes after construction the search never
  reports failure: every object that the loop passes through is complete, or its search
  finds a round or throws.
\<close>

lemma reached_nonempty:
  assumes "distinct [a, b, c, d, e, f, g, h]" and "[] \<notin> set [a, b, c, d, e, f, g, h]"
    and "reached \<lparr> teams = [], players = [a, b, c, d, e, f, g, h],
                    memo = replicate 8 (replicate 8 0) \<rparr> s"
  shows "players s = [a, b, c, d, e, f, g, h]
    \<and> memo s \<in> {replicate 8 (replicate 8 0), memo_after1, memo_after2, memo_after3,
                  memo_after4, memo_after5, memo_after6, memo_after7}"
  using assms(3)
proof (induction rule: reached.induct)
  case start
  show ?case by simp
next
  case (pass s s')
  obtain T P M where s: "s = \<lparr> teams = T, players = P, memo = M \<rparr>"
    by (cases s)
  with pass.IH have P: "P = [a, b, c, d, e, f, g, h]"
    and M: "M \<in> {replicate 8 (replicate 8 0), memo_after1, memo_after2, memo_after3,
                  memo_after4, memo_after5, memo_after6, memo_after7}"
    by simp_all
  from pass.hyps(2) generated7 [of T a b c d e f g h] s P have "M \<noteq> memo_after7"
    by auto
  with M pass.hyps(3) createTeams_body_rounds [OF assms(1,2), of T] show ?case
    unfolding s P by auto
qed

lemma reached_empty:
  assumes "distinct [a, b, c, d, e, f, g, h]" and "[] \<in> set [a, b, c, d, e, f, g, h]"
    and "reached \<lparr> teams = [], players = [a, b, c, d, e, f, g, h],
                    memo = replicate 8 (replicate 8 0) \<rparr> s"
  shows "s = \<lparr> teams = [], players = [a, b, c, d, e, f, g, h],
               memo = replicate 8 (replicate 8 0) \<rparr>"
  using assms(3)
proof (induction rule: reached.induct)
  case start
  show ?case by simp
next
  case (pass s s')
  from createTeam_empty_player [OF assms(1,2)] pass.IH
  have "createTeams_body s = Inl InvalidPairing"
    by (simp add: createTeams_body_def)
  with pass.hyps(3) show ?case by simp
qed

lemma createTeams_search_never_fails:
  assumes "TeamConfigurations_new ps = Inr s0" and "reached s0 s"
    and "\<not> allTeamsGenerated s"
    and "createTeam (players s) (memo s) [] (players s) = Inr r"
  shows "possible r"
proof -
  from assms(1) have d: "distinct ps" and l: "length ps = 8"
    and s0: "s0 = \<lparr> teams = [], players = ps, memo = replicate 8 (replicate 8 0) \<rparr>"
    by (simp_all add: TeamConfigurations_new_Inr)
  from l obtain a b c d e f g h where ps: "ps = [a, b, c, d, e, f, g, h]"
    by (rule roster8)
  note d' = d [unfolded ps]
  note r' = assms(2) [unfolded s0 ps]
  show ?thesis
  proof (cases "[] \<in> set [a, b, c, d, e, f, g, h]")
    case True
    from reached_empty [OF d' True r'] createTeam_empty_player [OF d' True] assms(4)
    show ?thesis by simp
  next
    case False
    obtain T P M where s: "s = \<lparr> teams = T, players = P, memo = M \<rparr>"
      by (cases s)
    from reached_nonempty [OF d' False r'] s
    have P: "P = [a, b, c, d, e, f, g, h]"
      and M: "M \<in> {replicate 8 (replicate 8 0), memo_after1, memo_after2, memo_after3,
                  memo_after4, memo_after5, memo_after6, memo_after7}"
      by simp_all
    from assms(3) generated7 [of T a b c d e f g h] s P have "M \<noteq> memo_after7"
      by auto
    with M assms(4) round1(1) [OF d' False] round2(1) [OF d' False] round3(1) [OF d' False]
      round4(1) [OF d' False] round5(1) [OF d' False] round6(1) [OF d' False]
      round7(1) [OF d' False]
    show ?thesis
      unfolding s P by auto
  qed
qed








end
